theory Spec2Isabelle
  imports Complex_Main "HOL-Library.Multiset"
begin

section \<open>Data model\<close>

text \<open>
  The game has two modes; \<open>Easy\<close> forbids division. An \<open>ExprNode\<close> pairs a number with
  the text of the expression that produced it. A \<open>Puzzle\<close> holds the numbers shown to
  the player, the (always empty) list of hints and the solution found for them.
\<close>

datatype Mode = Easy | Hard

record 'v ExprNode =
  val :: 'v
  expr :: string


text \<open>
  JavaScript numbers are IEEE-754 doubles, which HOL does not have. The search is
  therefore written over an arbitrary number type \<open>'v\<close>, with the operations the code
  applies to numbers collected in a record: \<open>+\<close>, \<open>-\<close>, \<open>*\<close>, \<open>/\<close>, \<open>Math.abs\<close>, \<open><\<close>
  and the number a literal denotes. A property proved for all \<open>A\<close> holds whatever
  rounding these operations perform.
\<close>

record 'v arith =
  num_add :: "'v \<Rightarrow> 'v \<Rightarrow> 'v"
  num_sub :: "'v \<Rightarrow> 'v \<Rightarrow> 'v"
  num_mul :: "'v \<Rightarrow> 'v \<Rightarrow> 'v"
  num_div :: "'v \<Rightarrow> 'v \<Rightarrow> 'v"
  num_abs :: "'v \<Rightarrow> 'v"
  num_lt :: "'v \<Rightarrow> 'v \<Rightarrow> bool"
  num_lit :: "rat \<Rightarrow> 'v"

text \<open>
  The instance \<open>js\<close> is the arithmetic of JavaScript numbers without rounding and
  without overflow: a number is a rational or one of \<open>Infinity\<close>, \<open>-Infinity\<close>, \<open>NaN\<close>,
  and the operations treat the three special values as IEEE-754 does. A division by
  zero yields an infinity, or \<open>NaN\<close> for \<open>0/0\<close>; every comparison with \<open>NaN\<close> is false.
  Zero carries no sign here, so a quotient by zero takes the sign of the dividend.
\<close>

datatype number = Fin rat | PInf | NInf | NaN

fun is_neg :: "number \<Rightarrow> bool" where
  "is_neg (Fin a) = (a < 0)"
| "is_neg NInf = True"
| "is_neg PInf = False"
| "is_neg NaN = False"


fun js_neg :: "number \<Rightarrow> number" where
  "js_neg (Fin a) = Fin (- a)"
| "js_neg PInf = NInf"
| "js_neg NInf = PInf"
| "js_neg NaN = NaN"

definition signed_inf :: "number \<Rightarrow> number \<Rightarrow> number" where
  "signed_inf x y = (if is_neg x = is_neg y then PInf else NInf)"

definition js_add :: "number \<Rightarrow> number \<Rightarrow> number" where
  "js_add x y =
     (if x = NaN \<or> y = NaN then NaN
      else case (x, y) of
             (Fin a, Fin b) \<Rightarrow> Fin (a + b)
           | (Fin a, _) \<Rightarrow> y
           | (_, Fin b) \<Rightarrow> x
           | _ \<Rightarrow> if x = y then x else NaN)"

definition js_sub :: "number \<Rightarrow> number \<Rightarrow> number" where
  "js_sub x y = js_add x (js_neg y)"

definition js_mul :: "number \<Rightarrow> number \<Rightarrow> number" where
  "js_mul x y =
     (if x = NaN \<or> y = NaN then NaN
      else case (x, y) of
             (Fin a, Fin b) \<Rightarrow> Fin (a * b)
           | _ \<Rightarrow> if x = Fin 0 \<or> y = Fin 0 then NaN else signed_inf x y)"

definition js_div :: "number \<Rightarrow> number \<Rightarrow> number" where
  "js_div x y =
     (if x = NaN \<or> y = NaN then NaN
      else case (x, y) of
             (Fin a, Fin b) \<Rightarrow>
               if b \<noteq> 0 then Fin (a / b) else if a = 0 then NaN else signed_inf x y
           | (Fin a, _) \<Rightarrow> Fin 0
           | (_, Fin b) \<Rightarrow> signed_inf x y
           | _ \<Rightarrow> NaN)"

definition js_abs :: "number \<Rightarrow> number" where
  "js_abs x = (case x of Fin a \<Rightarrow> Fin \<bar>a\<bar> | NaN \<Rightarrow> NaN | _ \<Rightarrow> PInf)"

definition js_lt :: "number \<Rightarrow> number \<Rightarrow> bool" where
  "js_lt x y =
     (case (x, y) of
        (Fin a, Fin b) \<Rightarrow> a < b
      | (Fin a, PInf) \<Rightarrow> True
      | (NInf, Fin b) \<Rightarrow> True
      | (NInf, PInf) \<Rightarrow> True
      | _ \<Rightarrow> False)"

definition js :: "number arith" where
  "js = \<lparr>num_add = js_add, num_sub = js_sub, num_mul = js_mul, num_div = js_div,
         num_abs = js_abs, num_lt = js_lt, num_lit = Fin\<rparr>"

text \<open>
  The instance \<open>js_overflow\<close> adds the range of doubles to \<open>js\<close>: a result of magnitude
  \<open>2 ^ 1024\<close> or more is an infinity. It still does not round.
\<close>

definition huge :: rat where
  "huge = 179769313486231590772930519078902473361797697894230657273430081157732675805500963132708477322407536021120113879871393357658789768814416622492847430639474124377767893424865485276302219601246094119453082952085005768838150682342462881473913110540827237163350510684586298239947245938479716304835356329624224137216"

definition overflow :: "number \<Rightarrow> number" where
  "overflow x =
     (case x of
        Fin a \<Rightarrow> if huge \<le> \<bar>a\<bar> then (if a < 0 then NInf else PInf) else Fin a
      | _ \<Rightarrow> x)"


section \<open>The search\<close>

text \<open>
  The four operators of \<open>findSolution\<close>, in the order of the source. Each builds the
  combined node; only division can refuse, when the divisor is below \<open>1e-9\<close> in
  absolute value.
\<close>

record 'v Operator =
  symbol :: string
  calc :: "'v ExprNode \<Rightarrow> 'v ExprNode \<Rightarrow> 'v ExprNode option"

definition ops :: "'v arith \<Rightarrow> 'v Operator list" where
  "ops A =
    [\<lparr>symbol = ''+'',
      calc = (\<lambda>a b. Some \<lparr>val = num_add A (val a) (val b),
                           expr = ''('' @ expr a @ ''+'' @ expr b @ '')''\<rparr>)\<rparr>,
     \<lparr>symbol = ''-'',
      calc = (\<lambda>a b. Some \<lparr>val = num_sub A (val a) (val b),
                           expr = ''('' @ expr a @ ''-'' @ expr b @ '')''\<rparr>)\<rparr>,
     \<lparr>symbol = ''*'',
      calc = (\<lambda>a b. Some \<lparr>val = num_mul A (val a) (val b),
                           expr = ''('' @ expr a @ ''*'' @ expr b @ '')''\<rparr>)\<rparr>,
     \<lparr>symbol = ''/'',
      calc = (\<lambda>a b. if num_lt A (num_abs A (val b)) (num_lit A (1 / 10 ^ 9)) then None
                     else Some \<lparr>val = num_div A (val a) (val b),
                                expr = ''('' @ expr a @ ''/'' @ expr b @ '')''\<rparr>)\<rparr>]"

text \<open>
  A \<open>for\<close> loop whose body may \<open>return\<close> a value or \<open>continue\<close>: the first iteration
  that yields a value decides.
\<close>

fun first_some :: "('a \<Rightarrow> 'b option) \<Rightarrow> 'a list \<Rightarrow> 'b option" where
  "first_some f [] = None"
| "first_some f (x # xs) = (case f x of Some y \<Rightarrow> Some y | None \<Rightarrow> first_some f xs)"

text \<open>\<open>Array.prototype.filter\<close> with a callback that also receives the index.\<close>

definition filter_index :: "('a \<Rightarrow> nat \<Rightarrow> bool) \<Rightarrow> 'a list \<Rightarrow> 'a list" where
  "filter_index p xs = map fst (filter (\<lambda>(x, idx). p x idx) (zip xs [0..<length xs]))"

lemma first_some_cong [fundef_cong]:
  "xs = ys \<Longrightarrow> (\<And>x. x \<in> set ys \<Longrightarrow> f x = g x) \<Longrightarrow> first_some f xs = first_some g ys"
  by (induction ys arbitrary: xs) (auto split: option.splits)

lemma filter_index_nth:
  "filter_index p xs = map (\<lambda>k. xs ! k) (filter (\<lambda>k. p (xs ! k) k) [0..<length xs])"
proof -
  have "zip xs [0..<length xs] = map (\<lambda>k. (xs ! k, k)) [0..<length xs]"
    by (rule nth_equalityI) simp_all
  then show ?thesis
    by (simp add: filter_index_def filter_map comp_def)
qed

lemma length_filter_two:
  assumes "i < n" "j < n" "i \<noteq> j"
  shows "length (filter (\<lambda>k. k \<noteq> i \<and> k \<noteq> j) [0..<n]) = n - 2"
proof -
  have "{k. k \<noteq> i \<and> k \<noteq> j} \<inter> set [0..<n] = {0..<n} - {i, j}" by auto
  moreover have "card ({0..<n} - {i, j}) = n - 2"
    using assms by (simp add: card_Diff_subset)
  ultimately show ?thesis
    by (simp add: distinct_length_filter)
qed

lemma length_filter_index_two:
  "i < length arr \<Longrightarrow> j < length arr \<Longrightarrow> i \<noteq> j \<Longrightarrow>
   length (filter_index (\<lambda>_ idx. idx \<noteq> i \<and> idx \<noteq> j) arr) = length arr - 2"
  by (simp add: filter_index_nth length_filter_two)

lemma pool_shrinks:
  assumes "i < length arr" "j < length arr" "i \<noteq> j"
  shows "length (filter_index (\<lambda>_ idx. idx \<noteq> i \<and> idx \<noteq> j) arr @ [result]) + 1 = length arr"
proof -
  from assms have "2 \<le> length arr" by auto
  with assms show ?thesis by (simp add: length_filter_index_two)
qed

text \<open>
  The inner function \<open>search\<close>. With one node left it succeeds when the value is within
  \<open>1e-6\<close> of 24. Otherwise it tries every ordered pair of distinct positions and every
  operator, in that order, and returns the first result of a recursive call that is
  truthy (a non-empty string). In easy mode the operator \<open>/\<close> is skipped. The reads
  \<open>arr ! 0\<close>, \<open>arr ! i\<close> and \<open>arr ! j\<close> are all in range where they stand.
\<close>

function search :: "'v arith \<Rightarrow> Mode \<Rightarrow> 'v ExprNode list \<Rightarrow> string option" where
  "search A mode arr =
    (if length arr = 1 then
       (if num_lt A (num_abs A (num_sub A (val (arr ! 0)) (num_lit A 24))) (num_lit A (1 / 10 ^ 6))
        then Some (expr (arr ! 0)) else None)
     else
       first_some (\<lambda>i.
         first_some (\<lambda>j.
           if i = j then None
           else
             (let rest = filter_index (\<lambda>_ idx. idx \<noteq> i \<and> idx \<noteq> j) arr in
              first_some (\<lambda>op.
                if mode = Easy \<and> symbol op = ''/'' then None
                else
                  (case calc op (arr ! i) (arr ! j) of
                     None \<Rightarrow> None
                   | Some result \<Rightarrow>
                       (case search A mode (rest @ [result]) of
                          None \<Rightarrow> None
                        | Some found \<Rightarrow> if found \<noteq> [] then Some found else None)))
                (ops A)))
           [0..<length arr])
         [0..<length arr])"
  by pat_completeness auto
termination
proof (relation "measure (\<lambda>(A, mode, arr). length arr)")
  show "wf (measure (\<lambda>(A :: 'v arith, mode :: Mode, arr :: 'v ExprNode list). length arr))"
    by simp
next
  fix A :: "'v arith" and mode :: Mode and arr :: "'v ExprNode list"
    and i j :: nat and rest :: "'v ExprNode list" and result :: "'v ExprNode"
  assume "i \<in> set [0..<length arr]" "j \<in> set [0..<length arr]" "i \<noteq> j"
    and "rest = filter_index (\<lambda>_ idx. idx \<noteq> i \<and> idx \<noteq> j) arr"
  then show "((A, mode, rest @ [result]), (A, mode, arr)) \<in> measure (\<lambda>(A, mode, arr). length arr)"
    using pool_shrinks [of i arr j result] by simp
qed

declare search.simps [simp del]

text \<open>
  \<open>Number.prototype.toString\<close> on an integer: the decimal digits, after a minus sign
  when it is negative. (JavaScript switches to exponent notation from \<open>1e21\<close> on; the
  model prints every integer in full.)
\<close>

definition digit_char :: "nat \<Rightarrow> char" where
  "digit_char d = ''0123456789'' ! d"

fun show_nat :: "nat \<Rightarrow> string" where
  "show_nat n = (if n < 10 then [digit_char n] else show_nat (n div 10) @ [digit_char (n mod 10)])"

declare show_nat.simps [simp del]

definition toString :: "int \<Rightarrow> string" where
  "toString n = (if n < 0 then CHR ''-'' # show_nat (nat (- n)) else show_nat (nat n))"

definition seeds :: "'v arith \<Rightarrow> int list \<Rightarrow> 'v ExprNode list" where
  "seeds A ns = map (\<lambda>n. \<lparr>val = num_lit A (of_int n), expr = toString n\<rparr>) ns"

definition findSolution :: "'v arith \<Rightarrow> int list \<Rightarrow> Mode \<Rightarrow> string option" where
  "findSolution A ns mode = search A mode (seeds A ns)"

section \<open>The generator\<close>








section \<open>Reading a solution back\<close>

text \<open>
  The strings the search builds are fully parenthesized expressions over integer
  literals. \<open>render\<close> prints such an expression the way the operators do, \<open>aval\<close>
  evaluates it with the operations of \<open>A\<close>, and \<open>leaves\<close> lists its literals from left
  to right.
\<close>

datatype bop = Add | Sub | Mul | Div

datatype aexp = Num int | Bin bop aexp aexp

fun bop_symbol :: "bop \<Rightarrow> string" where
  "bop_symbol Add = ''+''"
| "bop_symbol Sub = ''-''"
| "bop_symbol Mul = ''*''"
| "bop_symbol Div = ''/''"

fun render :: "aexp \<Rightarrow> string" where
  "render (Num n) = toString n"
| "render (Bin f l r) = ''('' @ render l @ bop_symbol f @ render r @ '')''"

fun apply_bop :: "'v arith \<Rightarrow> bop \<Rightarrow> 'v \<Rightarrow> 'v \<Rightarrow> 'v" where
  "apply_bop A Add x y = num_add A x y"
| "apply_bop A Sub x y = num_sub A x y"
| "apply_bop A Mul x y = num_mul A x y"
| "apply_bop A Div x y = num_div A x y"

fun aval :: "'v arith \<Rightarrow> aexp \<Rightarrow> 'v" where
  "aval A (Num n) = num_lit A (of_int n)"
| "aval A (Bin f l r) = apply_bop A f (aval A l) (aval A r)"

fun leaves :: "aexp \<Rightarrow> int list" where
  "leaves (Num n) = [n]"
| "leaves (Bin f l r) = leaves l @ leaves r"

fun depth :: "aexp \<Rightarrow> nat" where
  "depth (Num n) = 1"
| "depth (Bin f l r) = Suc (max (depth l) (depth r))"

text \<open>
  A parser for the same language: an expression is an integer literal (digits, after an
  optional minus sign) or \<open>(\<close>, an expression, one of \<open>+ - * /\<close>, an expression, \<open>)\<close>. The
  first argument of \<open>parse_expr\<close> bounds the nesting depth; the length of the input is
  always enough. \<open>evaluate\<close> is the value of a string, \<open>operands\<close> the literals in it.
\<close>

definition is_digit :: "char \<Rightarrow> bool" where
  "is_digit c = (c \<in> set ''0123456789'')"

definition digit_val :: "char \<Rightarrow> nat" where
  "digit_val c = of_char c - 48"

definition read_nat :: "string \<Rightarrow> nat" where
  "read_nat ds = foldl (\<lambda>n c. 10 * n + digit_val c) 0 ds"

definition parse_number :: "string \<Rightarrow> (int \<times> string) option" where
  "parse_number s =
     (case s of
        [] \<Rightarrow> None
      | c # cs \<Rightarrow>
          if c = CHR ''-'' then
            (let ds = takeWhile is_digit cs in
             if ds = [] then None else Some (- int (read_nat ds), dropWhile is_digit cs))
          else
            (let ds = takeWhile is_digit s in
             if ds = [] then None else Some (int (read_nat ds), dropWhile is_digit s)))"

fun bop_of_char :: "char \<Rightarrow> bop option" where
  "bop_of_char c =
     (if c = CHR ''+'' then Some Add else if c = CHR ''-'' then Some Sub
      else if c = CHR ''*'' then Some Mul else if c = CHR ''/'' then Some Div else None)"

fun parse_expr :: "nat \<Rightarrow> string \<Rightarrow> (aexp \<times> string) option" where
  "parse_expr 0 s = None"
| "parse_expr (Suc k) s =
     (case s of
        [] \<Rightarrow> None
      | c # cs \<Rightarrow>
          if c = CHR ''('' then
            (case parse_expr k cs of
               None \<Rightarrow> None
             | Some (l, s1) \<Rightarrow>
                 (case s1 of
                    [] \<Rightarrow> None
                  | c1 # s2 \<Rightarrow>
                      (case bop_of_char c1 of
                         None \<Rightarrow> None
                       | Some f \<Rightarrow>
                           (case parse_expr k s2 of
                              None \<Rightarrow> None
                            | Some (r, s3) \<Rightarrow>
                                (case s3 of
                                   [] \<Rightarrow> None
                                 | c2 # s4 \<Rightarrow>
                                     if c2 = CHR '')'' then Some (Bin f l r, s4) else None)))))
          else map_option (\<lambda>(n, rest). (Num n, rest)) (parse_number s))"

definition parse :: "string \<Rightarrow> aexp option" where
  "parse s = (case parse_expr (length s) s of Some (t, []) \<Rightarrow> Some t | _ \<Rightarrow> None)"

definition evaluate :: "'v arith \<Rightarrow> string \<Rightarrow> 'v option" where
  "evaluate A s = map_option (aval A) (parse s)"

definition operands :: "string \<Rightarrow> int list" where
  "operands s = (case parse s of Some t \<Rightarrow> leaves t | None \<Rightarrow> [])"

text \<open>The two tolerance tests of the source, on a value.\<close>

definition near24 :: "'v arith \<Rightarrow> 'v \<Rightarrow> bool" where
  "near24 A v = num_lt A (num_abs A (num_sub A v (num_lit A 24))) (num_lit A (1 / 10 ^ 6))"

definition near_zero :: "'v arith \<Rightarrow> 'v \<Rightarrow> bool" where
  "near_zero A v = num_lt A (num_abs A v) (num_lit A (1 / 10 ^ 9))"

text \<open>
  \<open>div_safe\<close>: no division in the expression has a divisor whose value is near zero.
  \<open>uses_div\<close>: the expression contains a division. \<open>finite_values\<close>: evaluated with
  \<open>js\<close>, the expression and every expression inside it has a finite value, neither an
  infinity nor \<open>NaN\<close>.
\<close>

fun div_safe :: "'v arith \<Rightarrow> aexp \<Rightarrow> bool" where
  "div_safe A (Num n) = True"
| "div_safe A (Bin f l r) =
     (div_safe A l \<and> div_safe A r \<and> (f = Div \<longrightarrow> \<not> near_zero A (aval A r)))"

fun uses_div :: "aexp \<Rightarrow> bool" where
  "uses_div (Num n) = False"
| "uses_div (Bin f l r) = (f = Div \<or> uses_div l \<or> uses_div r)"



text \<open>
  One step of the search replaces two nodes of the pool by their combination under an
  enabled operator. \<open>reduces A mode M x\<close>: such steps lead from the pool \<open>M\<close>, taken as a
  multiset, to the single node \<open>x\<close>.
\<close>

inductive reduces :: "'v arith \<Rightarrow> Mode \<Rightarrow> 'v ExprNode multiset \<Rightarrow> 'v ExprNode \<Rightarrow> bool"
  for A :: "'v arith" and mode :: Mode where
  final: "reduces A mode {#x#} x"
| combine: "op \<in> set (ops A) \<Longrightarrow> \<not> (mode = Easy \<and> symbol op = ''/'') \<Longrightarrow>
     calc op a b = Some r \<Longrightarrow> reduces A mode (add_mset r M) x \<Longrightarrow>
     reduces A mode (add_mset a (add_mset b M)) x"

text \<open>The body of the innermost loop of \<open>search\<close>, named for the proofs.\<close>

definition try_op ::
  "'v arith \<Rightarrow> Mode \<Rightarrow> 'v ExprNode list \<Rightarrow> nat \<Rightarrow> nat \<Rightarrow> 'v Operator \<Rightarrow> string option" where
  "try_op A mode arr i j op =
     (if mode = Easy \<and> symbol op = ''/'' then None
      else (case calc op (arr ! i) (arr ! j) of
              None \<Rightarrow> None
            | Some result \<Rightarrow>
                (case search A mode (filter_index (\<lambda>_ idx. idx \<noteq> i \<and> idx \<noteq> j) arr @ [result]) of
                   None \<Rightarrow> None
                 | Some found \<Rightarrow> if found \<noteq> [] then Some found else None)))"

text \<open>
  A node denotes an expression when its text is the expression's rendering and its value
  the expression's value, the expression divides by nothing near zero and, in easy mode,
  does not divide at all.
\<close>

definition denotes :: "'v arith \<Rightarrow> Mode \<Rightarrow> 'v ExprNode \<Rightarrow> aexp \<Rightarrow> bool" where
  "denotes A mode x t \<longleftrightarrow>
     expr x = render t \<and> val x = aval A t \<and> div_safe A t \<and> (mode = Easy \<longrightarrow> \<not> uses_div t)"


definition stops :: "string \<Rightarrow> bool" where
  "stops rest = (case rest of [] \<Rightarrow> True | c # _ \<Rightarrow> \<not> is_digit c)"

section \<open>Lemmas\<close>

subsection \<open>Printing and parsing\<close>

lemma digit_char_is_digit: "d < 10 \<Longrightarrow> is_digit (digit_char d)"
proof -
  assume "d < 10"
  then have "d \<in> {0,1,2,3,4,5,6,7,8,9}" by auto
  then show ?thesis by (auto simp: is_digit_def digit_char_def)
qed

lemma digit_val_digit_char: "d < 10 \<Longrightarrow> digit_val (digit_char d) = d"
proof -
  assume "d < 10"
  then have "d \<in> {0,1,2,3,4,5,6,7,8,9}" by auto
  then show ?thesis by (auto simp: digit_val_def digit_char_def)
qed

lemma digit_char_not_minus: "d < 10 \<Longrightarrow> digit_char d \<noteq> CHR ''-''"
  using digit_char_is_digit [of d] by (auto simp: is_digit_def)

lemma show_nat_digits: "\<forall>c \<in> set (show_nat n). is_digit c"
proof (induction n rule: show_nat.induct)
  case (1 n)
  show ?case
  proof (cases "n < 10")
    case True
    then show ?thesis by (subst show_nat.simps) (simp add: digit_char_is_digit)
  next
    case False
    with 1 show ?thesis by (subst show_nat.simps) (simp add: digit_char_is_digit)
  qed
qed

lemma show_nat_nonempty: "show_nat n \<noteq> []"
  by (subst show_nat.simps) simp

lemma read_nat_snoc: "read_nat (ds @ [c]) = 10 * read_nat ds + digit_val c"
  by (simp add: read_nat_def)

lemma read_show_nat: "read_nat (show_nat n) = n"
proof (induction n rule: show_nat.induct)
  case (1 n)
  show ?case
  proof (cases "n < 10")
    case True
    then show ?thesis
      by (subst show_nat.simps) (simp add: read_nat_def digit_val_digit_char)
  next
    case False
    with 1 show ?thesis
      by (subst show_nat.simps) (simp add: read_nat_snoc digit_val_digit_char)
  qed
qed

lemma takeWhile_digits: "\<forall>c \<in> set ds. is_digit c \<Longrightarrow> stops rest \<Longrightarrow> takeWhile is_digit (ds @ rest) = ds"
  by (induction ds) (auto simp: stops_def split: list.splits)

lemma dropWhile_digits: "\<forall>c \<in> set ds. is_digit c \<Longrightarrow> stops rest \<Longrightarrow> dropWhile is_digit (ds @ rest) = rest"
  by (induction ds) (auto simp: stops_def split: list.splits)

lemma show_nat_hd: "\<exists>c cs. show_nat n = c # cs \<and> is_digit c"
  using show_nat_nonempty [of n] show_nat_digits [of n] by (cases "show_nat n") auto

lemma parse_number_toString:
  assumes "stops rest"
  shows "parse_number (toString n @ rest) = Some (n, rest)"
proof (cases "n < 0")
  case True
  have "takeWhile is_digit (show_nat (nat (- n)) @ rest) = show_nat (nat (- n))"
    "dropWhile is_digit (show_nat (nat (- n)) @ rest) = rest"
    using assms show_nat_digits by (blast intro: takeWhile_digits dropWhile_digits)+
  then show ?thesis
    using True show_nat_nonempty [of "nat (- n)"] read_show_nat [of "nat (- n)"]
    by (simp add: parse_number_def toString_def)
next
  case False
  obtain c cs where c: "show_nat (nat n) = c # cs" "is_digit c"
    using show_nat_hd by blast
  then have "c \<noteq> CHR ''-''" by (auto simp: is_digit_def)
  moreover have "takeWhile is_digit (show_nat (nat n) @ rest) = show_nat (nat n)"
    "dropWhile is_digit (show_nat (nat n) @ rest) = rest"
    using assms show_nat_digits by (blast intro: takeWhile_digits dropWhile_digits)+
  ultimately show ?thesis
    using False c read_show_nat [of "nat n"]
    by (simp add: parse_number_def toString_def)
qed

lemma toString_not_paren: "\<exists>c cs. toString n = c # cs \<and> c \<noteq> CHR ''(''"
proof -
  obtain c cs where c: "show_nat (nat n) = c # cs" "is_digit c"
    using show_nat_hd by blast
  then show ?thesis by (auto simp: toString_def is_digit_def)
qed

lemma stops_sym: "stops (bop_symbol f @ s)"
  by (cases f) (simp_all add: stops_def is_digit_def)

lemma stops_close: "stops (CHR '')'' # s)"
  by (simp add: stops_def is_digit_def)

lemma bop_of_char_sym: "bop_symbol f @ s = c # cs \<Longrightarrow> bop_of_char c = Some f \<and> cs = s"
  by (cases f) auto

lemma parse_expr_render:
  "depth t \<le> k \<Longrightarrow> stops rest \<Longrightarrow> parse_expr k (render t @ rest) = Some (t, rest)"
proof (induction t arbitrary: k rest)
  case (Num n)
  then obtain k' where k: "k = Suc k'" by (cases k) auto
  obtain c cs where c: "toString n = c # cs" "c \<noteq> CHR ''(''"
    using toString_not_paren by blast
  have "parse_number ((c # cs) @ rest) = Some (n, rest)"
    using parse_number_toString [OF Num.prems(2), of n] c by simp
  then show ?case using c k by simp
next
  case (Bin f l r)
  then obtain k' where k: "k = Suc k'" "depth l \<le> k'" "depth r \<le> k'" by (cases k) auto
  have l: "parse_expr k' (render l @ (bop_symbol f @ render r @ '')'' @ rest)) = Some (l, bop_symbol f @ render r @ '')'' @ rest)"
    using Bin.IH(1) [OF k(2) stops_sym] .
  have r: "parse_expr k' (render r @ ('')'' @ rest)) = Some (r, '')'' @ rest)"
    using Bin.IH(2) [OF k(3)] stops_close by simp
  obtain c cs where c: "bop_symbol f @ render r @ '')'' @ rest = c # cs"
    by (cases f) auto
  from bop_of_char_sym [OF this] have f: "bop_of_char c = Some f" "cs = render r @ '')'' @ rest"
    by auto
  show ?case
    using l r c f k(1) by (simp del: bop_of_char.simps)
qed

lemma depth_le_length: "depth t \<le> length (render t)"
proof (induction t)
  case (Num n)
  then show ?case using toString_not_paren [of n] by (auto simp: Suc_le_eq)
next
  case (Bin f l r)
  then show ?case by auto
qed

lemma parse_render: "parse (render t) = Some t"
proof -
  have "stops []" by (simp add: stops_def)
  from parse_expr_render [OF depth_le_length this, of t] show ?thesis
    by (simp add: parse_def)
qed

lemma render_inj: "render t = render t' \<Longrightarrow> t = t'"
  by (metis option.inject parse_render)

subsection \<open>One step of the search\<close>

lemma first_some_SomeD: "first_some f xs = Some y \<Longrightarrow> \<exists>x \<in> set xs. f x = Some y"
  by (induction xs) (auto split: option.splits)

lemma first_some_None_iff: "first_some f xs = None \<longleftrightarrow> (\<forall>x \<in> set xs. f x = None)"
  by (induction xs) (auto split: option.splits)

lemma search_single: "search A mode [x] = (if near24 A (val x) then Some (expr x) else None)"
  by (simp add: search.simps near24_def)

lemma search_Nil: "search A mode [] = None"
  by (simp add: search.simps)

lemma first_some_not_None: "x \<in> set xs \<Longrightarrow> f x \<noteq> None \<Longrightarrow> first_some f xs \<noteq> None"
  by (simp add: first_some_None_iff) blast

lemma search_unfold:
  assumes "length arr \<noteq> 1"
  shows "search A mode arr =
    first_some (\<lambda>i. first_some (\<lambda>j. if i = j then None else first_some (try_op A mode arr i j) (ops A))
      [0..<length arr]) [0..<length arr]"
proof -
  have "search A mode arr =
    (if length arr = 1 then
       (if num_lt A (num_abs A (num_sub A (val (arr ! 0)) (num_lit A 24))) (num_lit A (1 / 10 ^ 6))
        then Some (expr (arr ! 0)) else None)
     else
       first_some (\<lambda>i. first_some (\<lambda>j. if i = j then None else first_some (try_op A mode arr i j) (ops A))
         [0..<length arr]) [0..<length arr])"
    unfolding try_op_def by (subst search.simps) (simp only: Let_def)
  with assms show ?thesis by simp
qed

lemma search_SomeE:
  assumes "search A mode arr = Some s" and "length arr \<noteq> 1"
  obtains i j op r where "i < length arr" "j < length arr" "i \<noteq> j"
    and "op \<in> set (ops A)" "\<not> (mode = Easy \<and> symbol op = ''/'')"
    and "calc op (arr ! i) (arr ! j) = Some r"
    and "search A mode (filter_index (\<lambda>_ idx. idx \<noteq> i \<and> idx \<noteq> j) arr @ [r]) = Some s"
    and "s \<noteq> []"
proof -
  let ?mid = "\<lambda>i j. if i = j then None else first_some (try_op A mode arr i j) (ops A)"
  from assms have "first_some (\<lambda>i. first_some (?mid i) [0..<length arr]) [0..<length arr] = Some s"
    by (simp add: search_unfold)
  then obtain i where i: "i \<in> set [0..<length arr]" "first_some (?mid i) [0..<length arr] = Some s"
    by (blast dest: first_some_SomeD)
  then obtain j where j: "j \<in> set [0..<length arr]" "?mid i j = Some s"
    by (blast dest: first_some_SomeD)
  then have ij: "i \<noteq> j" and "first_some (try_op A mode arr i j) (ops A) = Some s"
    by (auto split: if_splits)
  then obtain op where op: "op \<in> set (ops A)" "try_op A mode arr i j op = Some s"
    by (blast dest: first_some_SomeD)
  then obtain r where "\<not> (mode = Easy \<and> symbol op = ''/'')" "calc op (arr ! i) (arr ! j) = Some r"
    "search A mode (filter_index (\<lambda>_ idx. idx \<noteq> i \<and> idx \<noteq> j) arr @ [r]) = Some s" "s \<noteq> []"
    unfolding try_op_def by (auto split: if_splits option.splits)
  with i(1) j(1) ij op(1) that show thesis by auto
qed

lemma search_SomeI:
  assumes "i < length arr" "j < length arr" "i \<noteq> j"
    and "op \<in> set (ops A)" "\<not> (mode = Easy \<and> symbol op = ''/'')"
    and "calc op (arr ! i) (arr ! j) = Some r"
    and "search A mode (filter_index (\<lambda>_ idx. idx \<noteq> i \<and> idx \<noteq> j) arr @ [r]) = Some s"
    and "s \<noteq> []"
  shows "search A mode arr \<noteq> None"
proof -
  let ?mid = "\<lambda>i j. if i = j then None else first_some (try_op A mode arr i j) (ops A)"
  from assms have "try_op A mode arr i j op \<noteq> None" by (simp add: try_op_def)
  with assms(4) have "first_some (try_op A mode arr i j) (ops A) \<noteq> None"
    by (rule first_some_not_None)
  with assms(3) have "?mid i j \<noteq> None" by simp
  moreover from assms(2) have "j \<in> set [0..<length arr]" by simp
  ultimately have "first_some (?mid i) [0..<length arr] \<noteq> None"
    by (rule first_some_not_None [rotated])
  moreover from assms(1) have "i \<in> set [0..<length arr]" by simp
  ultimately have "first_some (\<lambda>i. first_some (?mid i) [0..<length arr]) [0..<length arr] \<noteq> None"
    by (rule first_some_not_None [rotated])
  moreover from assms(1-3) have "length arr \<noteq> 1" by auto
  ultimately show ?thesis
    by (simp add: search_unfold)
qed

subsection \<open>The search finds exactly what the reduction steps reach\<close>

lemma mset_upt_split:
  assumes "i < n" "j < n" "i \<noteq> j"
  shows "mset [0..<n] = add_mset i (add_mset j (mset (filter (\<lambda>k. k \<noteq> i \<and> k \<noteq> j) [0..<n])))"
proof (rule multiset_eqI)
  fix k
  have "count (mset [0..<n]) k = (if k < n then 1 else 0)"
    by (simp add: count_mset count_list_0_iff distinct_count_atmost_1)
  moreover have "count (mset (filter (\<lambda>k. k \<noteq> i \<and> k \<noteq> j) [0..<n])) k =
      (if k < n \<and> k \<noteq> i \<and> k \<noteq> j then 1 else 0)"
    by (simp add: count_mset count_list_0_iff distinct_count_atmost_1)
  ultimately show "count (mset [0..<n]) k =
      count (add_mset i (add_mset j (mset (filter (\<lambda>k. k \<noteq> i \<and> k \<noteq> j) [0..<n])))) k"
    using assms by auto
qed

lemma mset_filter_index_two:
  assumes "i < length arr" "j < length arr" "i \<noteq> j"
  shows "mset arr = add_mset (arr ! i) (add_mset (arr ! j)
           (mset (filter_index (\<lambda>_ idx. idx \<noteq> i \<and> idx \<noteq> j) arr)))"
proof -
  have "mset arr = image_mset (\<lambda>k. arr ! k) (mset [0..<length arr])"
    by (metis map_nth mset_map)
  also have "\<dots> = image_mset (\<lambda>k. arr ! k)
      (add_mset i (add_mset j (mset (filter (\<lambda>k. k \<noteq> i \<and> k \<noteq> j) [0..<length arr]))))"
    using mset_upt_split [OF assms] by simp
  finally show ?thesis
    by (simp add: filter_index_nth)
qed

lemma search_sound:
  "search A mode arr = Some s \<Longrightarrow>
   \<exists>x. reduces A mode (mset arr) x \<and> near24 A (val x) \<and> expr x = s"
proof (induction A mode arr arbitrary: s rule: search.induct)
  case (1 A mode arr)
  show ?case
  proof (cases "length arr = 1")
    case True
    then obtain x where arr: "arr = [x]" by (cases arr) auto
    with "1.prems" have "near24 A (val x)" "expr x = s"
      by (auto simp: search_single split: if_splits)
    with arr show ?thesis by (auto intro: reduces.final)
  next
    case False
    from "1.prems" False obtain i j op r where
      ij: "i < length arr" "j < length arr" "i \<noteq> j"
      and op: "op \<in> set (ops A)" "\<not> (mode = Easy \<and> symbol op = ''/'')"
      and r: "calc op (arr ! i) (arr ! j) = Some r"
      and rec: "search A mode (filter_index (\<lambda>_ idx. idx \<noteq> i \<and> idx \<noteq> j) arr @ [r]) = Some s"
      by (rule search_SomeE)
    let ?rest = "filter_index (\<lambda>_ idx. idx \<noteq> i \<and> idx \<noteq> j) arr"
    from ij have "i \<in> set [0..<length arr]" "j \<in> set [0..<length arr]" by auto
    from "1.IH" [OF False this ij(3) refl op r rec]
    obtain x where x: "reduces A mode (mset (?rest @ [r])) x" "near24 A (val x)" "expr x = s"
      by blast
    from x(1) have "reduces A mode (add_mset r (mset ?rest)) x" by simp
    from reduces.combine [OF op r this]
    have "reduces A mode (mset arr) x"
      using mset_filter_index_two [OF ij] by simp
    with x show ?thesis by blast
  qed
qed

lemma calc_expr_nonempty: "op \<in> set (ops A) \<Longrightarrow> calc op a b = Some r \<Longrightarrow> expr r \<noteq> []"
  by (auto simp: ops_def split: if_splits)

lemma two_positions:
  assumes "mset arr = add_mset a (add_mset b M)"
  shows "\<exists>i j. i < length arr \<and> j < length arr \<and> i \<noteq> j \<and> arr ! i = a \<and> arr ! j = b"
proof -
  from assms have "a \<in> set arr" by (metis union_single_eq_member set_mset_mset)
  then obtain xs ys where arr: "arr = xs @ a # ys" by (meson split_list)
  with assms have "mset (xs @ ys) = add_mset b M" by simp
  then have "b \<in> set (xs @ ys)" by (metis union_single_eq_member set_mset_mset)
  then consider "b \<in> set xs" | "b \<in> set ys" by auto
  then show ?thesis
  proof cases
    case 1
    then obtain j where "j < length xs" "xs ! j = b" by (auto simp: in_set_conv_nth)
    then have "j < length arr" "length xs < length arr" "length xs \<noteq> j"
      "arr ! length xs = a" "arr ! j = b"
      by (auto simp: arr nth_append)
    then show ?thesis by blast
  next
    case 2
    then obtain j where "j < length ys" "ys ! j = b" by (auto simp: in_set_conv_nth)
    then have "length xs + Suc j < length arr" "length xs < length arr" "length xs \<noteq> length xs + Suc j"
      "arr ! length xs = a" "arr ! (length xs + Suc j) = b"
      by (auto simp: arr nth_append)
    then show ?thesis by blast
  qed
qed

lemma search_complete:
  "reduces A mode M x \<Longrightarrow> near24 A (val x) \<Longrightarrow> mset arr = M \<Longrightarrow> search A mode arr \<noteq> None"
proof (induction arbitrary: arr rule: reduces.induct)
  case (final x)
  then have "arr = [x]" by simp
  with final show ?case by (simp add: search_single)
next
  case (combine op a b r M x)
  from two_positions [OF combine.prems(2)] obtain i j where
    ij: "i < length arr" "j < length arr" "i \<noteq> j" and a: "arr ! i = a" and b: "arr ! j = b"
    by blast
  let ?rest = "filter_index (\<lambda>_ idx. idx \<noteq> i \<and> idx \<noteq> j) arr"
  from mset_filter_index_two [OF ij] combine.prems(2) a b have "mset ?rest = M" by simp
  then have "mset (?rest @ [r]) = add_mset r M" by simp
  from combine.IH [OF combine.prems(1) this] obtain s where s: "search A mode (?rest @ [r]) = Some s"
    by auto
  have "s \<noteq> []"
  proof (cases "length (?rest @ [r]) = 1")
    case True
    then have "?rest @ [r] = [r]" by simp
    with s have "s = expr r" by (simp add: search_single split: if_splits)
    with calc_expr_nonempty [OF combine.hyps(1,3)] show ?thesis by simp
  next
    case False
    with s show ?thesis by (rule search_SomeE)
  qed
  moreover from combine.hyps(3) a b have "calc op (arr ! i) (arr ! j) = Some r" by simp
  ultimately show ?case
    using search_SomeI [OF ij combine.hyps(1,2) _ s] by blast
qed

lemma search_Some_iff:
  "search A mode arr \<noteq> None \<longleftrightarrow> (\<exists>x. reduces A mode (mset arr) x \<and> near24 A (val x))"
  using search_sound search_complete by blast

subsection \<open>What every returned string is\<close>

lemma reduces_invariant:
  assumes "reduces A mode M x" and "\<forall>y \<in># M. P y"
    and "\<And>op a b r. op \<in> set (ops A) \<Longrightarrow> \<not> (mode = Easy \<and> symbol op = ''/'') \<Longrightarrow>
           calc op a b = Some r \<Longrightarrow> P a \<Longrightarrow> P b \<Longrightarrow> P r"
  shows "P x"
  using assms(1,2)
proof (induction rule: reduces.induct)
  case (final x)
  then show ?case by simp
next
  case (combine op a b r M x)
  from combine.prems have "P a" "P b" by simp_all
  with combine.hyps(1-3) have "P r" by (rule assms(3))
  with combine.prems show ?case by (intro combine.IH) simp
qed

lemma calc_denotes:
  assumes "op \<in> set (ops A)" "\<not> (mode = Easy \<and> symbol op = ''/'')" "calc op a b = Some r"
    and "denotes A mode a ta" "denotes A mode b tb"
  shows "\<exists>f. denotes A mode r (Bin f ta tb)"
proof -
  from assms(1) consider
      "symbol op = ''+''" "calc op a b = Some \<lparr>val = num_add A (val a) (val b), expr = ''('' @ expr a @ ''+'' @ expr b @ '')''\<rparr>"
    | "symbol op = ''-''" "calc op a b = Some \<lparr>val = num_sub A (val a) (val b), expr = ''('' @ expr a @ ''-'' @ expr b @ '')''\<rparr>"
    | "symbol op = ''*''" "calc op a b = Some \<lparr>val = num_mul A (val a) (val b), expr = ''('' @ expr a @ ''*'' @ expr b @ '')''\<rparr>"
    | "symbol op = ''/''" "calc op a b =
         (if near_zero A (val b) then None
          else Some \<lparr>val = num_div A (val a) (val b), expr = ''('' @ expr a @ ''/'' @ expr b @ '')''\<rparr>)"
    by (auto simp: ops_def near_zero_def)
  then show ?thesis
  proof cases
    case 1
    with assms(3-5) have "denotes A mode r (Bin Add ta tb)" by (auto simp: denotes_def)
    then show ?thesis ..
  next
    case 2
    with assms(3-5) have "denotes A mode r (Bin Sub ta tb)" by (auto simp: denotes_def)
    then show ?thesis ..
  next
    case 3
    with assms(3-5) have "denotes A mode r (Bin Mul ta tb)" by (auto simp: denotes_def)
    then show ?thesis ..
  next
    case 4
    with assms(2-5) have "denotes A mode r (Bin Div ta tb)"
      by (auto simp: denotes_def split: if_splits)
    then show ?thesis ..
  qed
qed

lemma operands_render: "operands (render t) = leaves t"
  by (simp add: operands_def parse_render)

lemma reduces_denotes:
  assumes "reduces A mode M x" and "\<forall>y \<in># M. \<exists>t. denotes A mode y t"
  shows "\<exists>t. denotes A mode x t"
  using assms(1,2)
proof (rule reduces_invariant)
  fix op a b r
  assume "op \<in> set (ops A)" "\<not> (mode = Easy \<and> symbol op = ''/'')" "calc op a b = Some r"
    and "\<exists>t. denotes A mode a t" "\<exists>t. denotes A mode b t"
  then show "\<exists>t. denotes A mode r t" by (blast dest: calc_denotes)
qed

lemma reduces_operands:
  assumes "reduces A mode M x" and "\<forall>y \<in># M. \<exists>t. denotes A mode y t"
  shows "mset (operands (expr x)) = (\<Sum>y \<in># M. mset (operands (expr y)))"
  using assms
proof (induction rule: reduces.induct)
  case (final x)
  then show ?case by simp
next
  case (combine op a b r M x)
  from combine.prems obtain ta tb where t: "denotes A mode a ta" "denotes A mode b tb"
    by auto
  from calc_denotes [OF combine.hyps(1-3) this] obtain f where f: "denotes A mode r (Bin f ta tb)"
    by blast
  with combine.prems have "\<forall>y \<in># add_mset r M. \<exists>t. denotes A mode y t" by auto
  then have "mset (operands (expr x)) = (\<Sum>y \<in># add_mset r M. mset (operands (expr y)))"
    by (rule combine.IH)
  moreover have "operands (expr r) = operands (expr a) @ operands (expr b)"
  proof -
    from t f have "expr r = render (Bin f ta tb)" "expr a = render ta" "expr b = render tb"
      by (simp_all add: denotes_def)
    then show ?thesis by (simp only: operands_render leaves.simps)
  qed
  ultimately show ?case by simp
qed

lemma findSolution_seeds: "findSolution A ns mode = search A mode (seeds A ns)"
  by (simp add: findSolution_def)

lemma seeds_denote: "\<forall>y \<in># mset (seeds A ns). \<exists>t. denotes A mode y t"
proof -
  have "denotes A mode \<lparr>val = num_lit A (of_int n), expr = toString n\<rparr> (Num n)" for n
    by (simp add: denotes_def)
  then show ?thesis by (auto simp: seeds_def)
qed

lemma seeds_operands: "(\<Sum>y \<in># mset (seeds A ns). mset (operands (expr y))) = mset ns"
proof (induction ns)
  case Nil
  then show ?case by (simp add: seeds_def)
next
  case (Cons n ns)
  have "operands (toString n) = [n]"
    using operands_render [of "Num n"] by simp
  with Cons show ?case by (simp add: seeds_def)
qed

lemma findSolution_tree:
  assumes "findSolution A ns mode = Some s"
  shows "\<exists>t. s = render t \<and> near24 A (aval A t) \<and> div_safe A t \<and> (mode = Easy \<longrightarrow> \<not> uses_div t)
           \<and> mset (leaves t) = mset ns"
proof -
  from assms obtain x where x: "reduces A mode (mset (seeds A ns)) x" "near24 A (val x)" "expr x = s"
    unfolding findSolution_seeds by (blast dest: search_sound)
  from reduces_denotes [OF x(1) seeds_denote] obtain t where t: "denotes A mode x t" ..
  from reduces_operands [OF x(1) seeds_denote] have "mset (operands (expr x)) = mset ns"
    by (simp add: seeds_operands)
  with t have "mset (leaves t) = mset ns" by (simp add: denotes_def operands_render)
  with t x show ?thesis by (auto simp: denotes_def)
qed

subsection \<open>Every admissible expression is found\<close>





subsection \<open>Characters of a result, operators, the tolerances in \<open>js\<close>\<close>

lemma toString_chars: "c \<in> set (toString n) \<Longrightarrow> is_digit c \<or> c = CHR ''-''"
  using show_nat_digits by (auto simp: toString_def split: if_splits)

lemma render_no_slash: "\<not> uses_div t \<Longrightarrow> CHR ''/'' \<notin> set (render t)"
proof (induction t)
  case (Num n)
  show ?case using toString_chars [of "CHR ''/''" n] by (auto simp: is_digit_def)
next
  case (Bin f l r)
  then show ?case by (cases f) auto
qed



lemma calc_expr:
  "op \<in> set (ops A) \<Longrightarrow> calc op a b = Some r \<Longrightarrow>
   expr r = ''('' @ expr a @ symbol op @ expr b @ '')''"
  by (auto simp: ops_def split: if_splits)


lemma ops_symbol_bop:
  assumes "op \<in> set (ops A)"
  shows "\<exists>f. symbol op = bop_symbol f"
proof -
  from assms consider "symbol op = ''+''" | "symbol op = ''-''" | "symbol op = ''*''" | "symbol op = ''/''"
    by (auto simp: ops_def)
  then show ?thesis
  proof cases
    case 1
    then have "symbol op = bop_symbol Add" by simp
    then show ?thesis ..
  next
    case 2
    then have "symbol op = bop_symbol Sub" by simp
    then show ?thesis ..
  next
    case 3
    then have "symbol op = bop_symbol Mul" by simp
    then show ?thesis ..
  next
    case 4
    then have "symbol op = bop_symbol Div" by simp
    then show ?thesis ..
  qed
qed



lemma huge_power: "huge = 2 ^ 1024"
  by (simp add: huge_def)

lemma overflow_nan: "overflow x = NaN \<longleftrightarrow> x = NaN"
  by (cases x) (simp_all add: overflow_def)




subsection \<open>The call relation of the search\<close>

lemma search_rel_shrinks:
  assumes "search_rel x y"
  shows "length (snd (snd x)) + 1 = length (snd (snd y))"
  using assms
proof (cases rule: search_rel.cases)
  case (1 A mode arr i j rest op result)
  then show ?thesis using pool_shrinks [of i arr j result] by simp
qed

lemma search_rel_pow_shrinks:
  "(search_rel ^^ k) x y \<Longrightarrow> length (snd (snd x)) + k = length (snd (snd y))"
proof (induction k arbitrary: y)
  case 0
  then show ?case by simp
next
  case (Suc k)
  then obtain z where "(search_rel ^^ k) x z" "search_rel z y" by auto
  with Suc.IH [of z] search_rel_shrinks [of z y] show ?case by simp
qed

subsection \<open>The generator\<close>












subsection \<open>Runs of the search in \<open>js\<close>\<close>

lemma eval_1234: "findSolution js [1, 2, 3, 4] Hard = Some ''(4*(3+(1+2)))''"
  by code_simp

lemma eval_6666: "findSolution js [6, 6, 6, 6] Easy = Some ''((6+6)+(6+6))''"
  by code_simp

lemma eval_5555: "findSolution js [5, 5, 5, 5] Hard = Some ''((5*5)-(5/5))''"
  by code_simp

lemma evaluate_5555: "evaluate js ''((5*5)-(5/5))'' = Some (Fin 24)"
  by code_simp


lemma parse_3838:
  "parse ''(8/(3-(8/3)))'' = Some (Bin Div (Num 8) (Bin Sub (Num 3) (Bin Div (Num 8) (Num 3))))"
  by code_simp

lemma eval_46: "findSolution js [4, 6] Hard = Some ''(4*6)''"
  by code_simp









text \<open>
  The pool of four ones: whichever two positions are combined, the two nodes left are
  ones, so the first step leads to one of four pools of three nodes. None of them has
  a solution.
\<close>

lemma sub_1111_add:
  "search js Hard [\<lparr>val = Fin 1, expr = ''1''\<rparr>, \<lparr>val = Fin 1, expr = ''1''\<rparr>,
     \<lparr>val = Fin 2, expr = ''(1+1)''\<rparr>] = None"
  by code_simp

lemma sub_1111_sub:
  "search js Hard [\<lparr>val = Fin 1, expr = ''1''\<rparr>, \<lparr>val = Fin 1, expr = ''1''\<rparr>,
     \<lparr>val = Fin 0, expr = ''(1-1)''\<rparr>] = None"
  by code_simp

lemma sub_1111_mul:
  "search js Hard [\<lparr>val = Fin 1, expr = ''1''\<rparr>, \<lparr>val = Fin 1, expr = ''1''\<rparr>,
     \<lparr>val = Fin 1, expr = ''(1*1)''\<rparr>] = None"
  by code_simp

lemma sub_1111_div:
  "search js Hard [\<lparr>val = Fin 1, expr = ''1''\<rparr>, \<lparr>val = Fin 1, expr = ''1''\<rparr>,
     \<lparr>val = Fin 1, expr = ''(1/1)''\<rparr>] = None"
  by code_simp

lemma filter_index_replicate:
  assumes "i < n" "j < n" "i \<noteq> j"
  shows "filter_index (\<lambda>_ idx. idx \<noteq> i \<and> idx \<noteq> j) (replicate n x) = replicate (n - 2) x"
proof (rule replicate_eqI)
  show "length (filter_index (\<lambda>_ idx. idx \<noteq> i \<and> idx \<noteq> j) (replicate n x)) = n - 2"
    using assms by (simp add: length_filter_index_two)
next
  fix y
  assume "y \<in> set (filter_index (\<lambda>_ idx. idx \<noteq> i \<and> idx \<noteq> j) (replicate n x))"
  then show "y = x" by (auto simp: filter_index_nth)
qed

lemma eval_1111: "findSolution js [1, 1, 1, 1] Hard = None"
proof -
  let ?n = "\<lparr>val = Fin 1, expr = ''1''\<rparr>"
  have seeds: "seeds js [1, 1, 1, 1] = replicate 4 ?n"
    by code_simp
  have none: "try_op js Hard (replicate 4 ?n) i j op = None"
    if "i < 4" "j < 4" "i \<noteq> j" "op \<in> set (ops js)" for i j op
  proof -
    have rest: "filter_index (\<lambda>_ idx. idx \<noteq> i \<and> idx \<noteq> j) (replicate 4 ?n) = [?n, ?n]"
      using filter_index_replicate [OF that(1-3), of ?n] by (simp add: numeral_2_eq_2)
    from that(4) show ?thesis
      using that(1,2) sub_1111_add sub_1111_sub sub_1111_mul sub_1111_div
      by (auto simp: try_op_def rest ops_def js_def js_add_def js_sub_def js_mul_def js_div_def
          js_abs_def js_lt_def)
  qed
  have "search js Hard (replicate 4 ?n) = None"
    by (subst search_unfold) (auto simp: first_some_None_iff none)
  then show ?thesis by (simp add: findSolution_def seeds)
qed

section \<open>Properties of the search and the generator\<close>

text \<open>
  C1. For every list of integers (four, in the game) and every mode: when
  \<open>findSolution\<close> returns a string \<open>s\<close>, evaluating \<open>s\<close> yields a value within \<open>1e-6\<close> of
  24, and the number literals of \<open>s\<close> are the input numbers, each as often as it was
  given: none twice, none left out. The evaluation is in the arithmetic of the search.
\<close>

theorem findSolution_valid:
  assumes "findSolution A ns mode = Some s"
  shows "\<exists>v. evaluate A s = Some v \<and> near24 A v \<and> mset (operands s) = mset ns"
proof -
  from findSolution_tree [OF assms] obtain t where
    "s = render t" "near24 A (aval A t)" "mset (leaves t) = mset ns" by auto
  then show ?thesis by (simp add: evaluate_def parse_render operands_render)
qed

theorem findSolution_valid_witness:
  "findSolution js [5, 5, 5, 5] Hard = Some ''((5*5)-(5/5))'' \<and>
   evaluate js ''((5*5)-(5/5))'' = Some (Fin 24) \<and> near24 js (Fin 24) \<and>
   mset (operands ''((5*5)-(5/5))'') = mset [5, 5, 5, 5]"
  using findSolution_valid [OF eval_5555] eval_5555 evaluate_5555 by auto



text \<open>
  C3. On the fixed inputs: \<open>findSolution\<close> finds a solution for \<open>[1, 2, 3, 4]\<close> in hard
  mode, and reports none for \<open>[1, 1, 1, 1]\<close> in hard mode. Both runs are in \<open>js\<close>.
\<close>

theorem fixed_vectors:
  "findSolution js [1, 2, 3, 4] Hard = Some ''(4*(3+(1+2)))'' \<and>
   findSolution js [1, 1, 1, 1] Hard = None"
  using eval_1234 eval_1111 by (rule conjI)





text \<open>
  C6. In easy mode no string returned by \<open>findSolution\<close> contains the character \<open>/\<close>,
  whatever the input.
\<close>

theorem easy_mode_no_slash:
  assumes "findSolution A ns Easy = Some s"
  shows "CHR ''/'' \<notin> set s"
proof -
  from findSolution_tree [OF assms] obtain t where "s = render t" "\<not> uses_div t" by auto
  then show ?thesis by (simp add: render_no_slash)
qed

theorem easy_mode_no_slash_witness:
  "findSolution js [6, 6, 6, 6] Easy = Some ''((6+6)+(6+6))'' \<and>
   CHR ''/'' \<notin> set ''((6+6)+(6+6))''"
  using easy_mode_no_slash [OF eval_6666] eval_6666 by simp

text \<open>
  C7. \<open>findSolution\<close> is a function of its inputs, and whether it finds a solution depends
  only on the multiset of the input numbers and the mode: on two lists that are
  permutations of each other it finds a solution for both or for neither.
\<close>

theorem findSolution_permutation:
  assumes "mset ns = mset ns'"
  shows "findSolution A ns mode = None \<longleftrightarrow> findSolution A ns' mode = None"
proof -
  from assms have "mset (seeds A ns) = mset (seeds A ns')"
    unfolding seeds_def mset_map by simp
  then have "search A mode (seeds A ns) \<noteq> None \<longleftrightarrow> search A mode (seeds A ns') \<noteq> None"
    unfolding search_Some_iff by simp
  then show ?thesis
    unfolding findSolution_seeds by blast
qed

theorem findSolution_permutation_witness:
  "mset [1, 2, 3, 4 :: int] = mset [3, 1, 4, 2] \<and> findSolution js [3, 1, 4, 2] Hard \<noteq> None"
proof -
  have m: "mset [1, 2, 3, 4 :: int] = mset [3, 1, 4, 2]" by simp
  from findSolution_permutation [OF m, of js Hard] eval_1234 m show ?thesis by simp
qed

text \<open>
  C8. The search terminates on every pool: the pool of each recursive call is exactly
  one node shorter than the pool of its caller, so a chain of \<open>k\<close> nested calls starting
  from a pool ends in a pool that is \<open>k\<close> shorter, and \<open>k\<close> is at most the size of the
  initial pool. \<open>search_rel x y\<close> is the call relation of the definition of \<open>search\<close>: the
  call with arguments \<open>y\<close> makes a recursive call with arguments \<open>x\<close>.
\<close>

theorem search_terminates:
  fixes A :: "'v arith" and arr :: "'v ExprNode list"
  shows "search_dom (A, mode, arr) \<and>
    (\<forall>x. search_rel x (A, mode, arr) \<longrightarrow> length (snd (snd x)) + 1 = length arr) \<and>
    (\<forall>k x. (search_rel ^^ k) x (A, mode, arr) \<longrightarrow>
       length (snd (snd x)) + k = length arr \<and> k \<le> length arr)"
proof (intro conjI allI impI)
  have "wfp (search_rel :: 'v arith \<times> Mode \<times> 'v ExprNode list \<Rightarrow> _)"
  proof (rule wfp_if_convertible_to_nat)
    fix x y :: "'v arith \<times> Mode \<times> 'v ExprNode list"
    assume "search_rel x y"
    then show "length (snd (snd x)) < length (snd (snd y))"
      using search_rel_shrinks [of x y] by simp
  qed
  then show "search_dom (A, mode, arr)" by (rule accp_wfpD)
next
  fix x
  assume "search_rel x (A, mode, arr)"
  then show "length (snd (snd x)) + 1 = length arr"
    by (auto dest: search_rel_shrinks)
next
  fix k x
  assume "(search_rel ^^ k) x (A, mode, arr)"
  then have "length (snd (snd x)) + k = length arr"
    by (auto dest: search_rel_pow_shrinks)
  then show "length (snd (snd x)) + k = length arr" "k \<le> length arr" by simp_all
qed

theorem search_terminates_witness:
  "search_rel (js, Hard, [\<lparr>val = Fin 12, expr = ''(4*3)''\<rparr>])
     (js, Hard, [\<lparr>val = Fin 4, expr = ''4''\<rparr>, \<lparr>val = Fin 3, expr = ''3''\<rparr>]) \<and>
   length [\<lparr>val = Fin 12, expr = ''(4*3)''\<rparr>] + 1 =
     length [\<lparr>val = Fin 4, expr = ''4''\<rparr>, \<lparr>val = Fin 3, expr = ''3''\<rparr>]"
proof -
  let ?arr = "[\<lparr>val = Fin 4, expr = ''4''\<rparr>, \<lparr>val = Fin 3, expr = ''3''\<rparr>]"
  let ?op = "ops js ! 2"
  have "search_rel (js, Hard, [] @ [\<lparr>val = Fin 12, expr = ''(4*3)''\<rparr>]) (js, Hard, ?arr)"
  proof (rule search_rel.intros [where x = 0 and xa = 1 and xc = ?op])
    show "[] = filter_index (\<lambda>_ idx. idx \<noteq> 0 \<and> idx \<noteq> 1) ?arr"
      by (simp add: filter_index_def upt_rec)
    show "calc ?op (?arr ! 0) (?arr ! 1) = Some \<lparr>val = Fin 12, expr = ''(4*3)''\<rparr>"
      by (simp add: ops_def js_def js_mul_def)
  qed (simp_all add: ops_def)
  then have r: "search_rel (js, Hard, [\<lparr>val = Fin 12, expr = ''(4*3)''\<rparr>]) (js, Hard, ?arr)"
    by simp
  with search_terminates [of js Hard ?arr] show ?thesis by simp
qed

text \<open>
  C9. Every operator wraps the text it builds in parentheses, \<open>(a_expr OP b_expr)\<close>; and
  on every pool whose nodes carry expressions of the language above (the seeds do, and
  so does every pool of a recursive call), a string returned by \<open>search\<close> is an expression
  of that language: it parses, and it is the rendering of one expression only.
\<close>

theorem parenthesized_result:
  "(\<forall>op \<in> set (ops A). \<forall>a b r. calc op a b = Some r \<longrightarrow>
      expr r = ''('' @ expr a @ symbol op @ expr b @ '')'') \<and>
   ((\<forall>x \<in> set arr. \<exists>t. expr x = render t) \<and> search A mode arr = Some s \<longrightarrow>
      (\<exists>t. s = render t \<and> parse s = Some t \<and> (\<forall>t'. render t' = s \<longrightarrow> t' = t)))"
proof (intro conjI ballI allI impI)
  fix op a b r
  assume "op \<in> set (ops A)" "calc op a b = Some r"
  then show "expr r = ''('' @ expr a @ symbol op @ expr b @ '')''" by (rule calc_expr)
next
  assume a: "(\<forall>x \<in> set arr. \<exists>t. expr x = render t) \<and> search A mode arr = Some s"
  then obtain x where x: "reduces A mode (mset arr) x" "expr x = s"
    by (blast dest: search_sound)
  from a have "\<forall>y \<in># mset arr. \<exists>t. expr y = render t" by simp
  with x(1) have "\<exists>t. expr x = render t"
  proof (rule reduces_invariant)
    fix op a b r
    assume "op \<in> set (ops A)" "calc op a b = Some r"
      and "\<exists>t. expr a = render t" "\<exists>t. expr b = render t"
    then obtain ta tb where e: "expr r = ''('' @ expr a @ symbol op @ expr b @ '')''"
      "expr a = render ta" "expr b = render tb"
      by (auto dest: calc_expr)
    from \<open>op \<in> set (ops A)\<close> obtain f where "symbol op = bop_symbol f"
      by (blast dest: ops_symbol_bop)
    with e have "expr r = render (Bin f ta tb)" by simp
    then show "\<exists>t. expr r = render t" ..
  qed
  then obtain t where "s = render t" using x(2) by auto
  then show "\<exists>t. s = render t \<and> parse s = Some t \<and> (\<forall>t'. render t' = s \<longrightarrow> t' = t)"
    by (auto simp: parse_render dest: render_inj)
qed

theorem parenthesized_result_witness:
  "calc (ops js ! 2) \<lparr>val = Fin 4, expr = ''4''\<rparr> \<lparr>val = Fin 6, expr = ''6''\<rparr> =
     Some \<lparr>val = Fin 24, expr = ''(4*6)''\<rparr> \<and>
   search js Hard (seeds js [4, 6]) = Some ''(4*6)'' \<and>
   parse ''(4*6)'' = Some (Bin Mul (Num 4) (Num 6)) \<and>
   render (Bin Mul (Num 4) (Num 6)) = ''(4*6)''"
proof -
  have c: "calc (ops js ! 2) \<lparr>val = Fin 4, expr = ''4''\<rparr> \<lparr>val = Fin 6, expr = ''6''\<rparr> =
      Some \<lparr>val = Fin 24, expr = ''(4*6)''\<rparr>"
    by (simp add: ops_def js_def js_mul_def)
  have s: "search js Hard (seeds js [4, 6]) = Some ''(4*6)''"
    using eval_46 by (simp add: findSolution_def)
  have w: "\<forall>x \<in> set (seeds js [4, 6]). \<exists>t. expr x = render t"
  proof
    fix x
    assume "x \<in> set (seeds js [4, 6])"
    then have "expr x = render (Num 4) \<or> expr x = render (Num 6)"
      by (auto simp: seeds_def)
    then show "\<exists>t. expr x = render t" by blast
  qed
  have r: "render (Bin Mul (Num 4) (Num 6)) = ''(4*6)''"
    by code_simp
  from parenthesized_result [of js "seeds js [4, 6]" Hard "''(4*6)''"] w s r c
  show ?thesis by (metis parse_render)
qed

text \<open>
  C10. On the empty list \<open>findSolution\<close> returns no solution. The pool is empty, so the
  base case, which asks for exactly one node, is not taken, and the range of positions
  of both loops is empty: no iteration runs and no element of the pool is read.
\<close>

theorem findSolution_empty:
  "seeds A [] = [] \<and> length (seeds A []) \<noteq> 1 \<and> [0..<length (seeds A [])] = [] \<and>
   findSolution A [] mode = None"
  by (simp add: findSolution_def seeds_def search_Nil)

end
